theory Spec2Isabelle
  imports Main "HOL-Library.Multiset"
begin

section \<open>Data model\<close>

text \<open>
  The data-access layer of the photo-sharing client (\<^verbatim>\<open>services/firebase\<close>) works on two
  document collections, \<^verbatim>\<open>users\<close> and \<^verbatim>\<open>photos\<close>. A document is a service-assigned
  identifier together with its data. The fields are the ones the functions read and write;
  identifiers and user ids are strings, a creation timestamp is an integer (milliseconds),
  and the array fields are lists, in the order the service stores them. The type of a
  comment is left open (\<open>'c\<close>).
\<close>

text \<open>
  A value of a document field whose shape the layer does not fix, and the objects the layer
  builds from such fields.
\<close>

datatype jsValue =
    JNull
  | JBool bool
  | JNumber int
  | JString string
  | JArray "jsValue list"
  | JObject "(string \<times> jsValue) list"

record user =
  userId :: string
  username :: string
  emailAddress :: string
  photoURL :: string
  verifiedUser :: bool
  following :: "string list"
  followers :: "string list"
  savedPosts :: "string list"

text \<open>\<^verbatim>\<open>{ ...doc.data(), docId: doc.id }\<close> for a user document.\<close>

record userDoc = user +
  docId :: string

text \<open>
  A photo document. The layer itself never stores a field named \<^verbatim>\<open>user\<close> in one, but a
  document can carry it: \<open>user\<close> is that field, \<open>None\<close> when the document has none.
\<close>

record 'c photo =
  userId :: string
  dateCreated :: int
  likes :: "string list"
  saved :: "string list"
  comments :: "'c list"
  user :: "jsValue option"

text \<open>\<^verbatim>\<open>{ ...doc.data(), docId: doc.id }\<close> for a photo document.\<close>

record 'c photoDoc = "'c photo" +
  docId :: string

text \<open>
  \<^verbatim>\<open>{ user, ...photo, userLikedPhoto, userSavedPhoto }\<close>, an entry of the feed: the fields of
  the photo, \<open>user\<close> among them, and the two flags.
\<close>

record 'c feedPhoto = "'c photoDoc" +
  userLikedPhoto :: bool
  userSavedPhoto :: bool

text \<open>The state of the remote service: both collections, each a list of documents.\<close>

record 'c database =
  users :: "(string \<times> user) list"
  photos :: "(string \<times> 'c photo) list"

text \<open>
  A rejected promise carries an error: a failure reported by the remote service, an update
  addressed to a document that does not exist, or the \<^verbatim>\<open>TypeError\<close> of destructuring
  \<^verbatim>\<open>undefined\<close>.
\<close>

datatype error = RemoteServiceFailure | NoSuchDocument | TypeError

section \<open>The remote data service\<close>

datatype collection = Users | Photos

datatype clause =
    WhereEq string string
  | WhereIn string "string list"
  | Limit nat

datatype request =
    ReqGet collection "clause list"
  | ReqUpdate collection string
  | ReqAdd collection

text \<open>
  What the service decides by itself: which requests it fails, and the identifier it
  assigns to a document added to \<^verbatim>\<open>users\<close>.
\<close>

record service =
  fails :: "request \<Rightarrow> bool"
  autoId :: "(string \<times> user) list \<Rightarrow> string"

text \<open>The fields of a document that a query can filter on, by name.\<close>

definition userField :: "string \<Rightarrow> user \<Rightarrow> string option" where
  "userField name u =
     (if name = ''userId'' then Some (user.userId u)
      else if name = ''username'' then Some (user.username u)
      else None)"

definition photoField :: "string \<Rightarrow> 'c photo \<Rightarrow> string option" where
  "photoField name p = (if name = ''userId'' then Some (photo.userId p) else None)"

text \<open>
  Modelled from the spec: \<^verbatim>\<open>lib/firebase\<close> (\<^verbatim>\<open>firebaseApp\<close>, \<^verbatim>\<open>FieldValue\<close>) and the
  Remote Data Service behind it are not part of the sources. The spec gives the service
  equality and membership filters, result limiting, document insert, and document update
  with array-union and array-remove: \<open>runQuery\<close> keeps the documents that pass every
  filter, in the order of the collection, and then cuts the result at the limit.
\<close>

fun satisfies :: "(string \<Rightarrow> 'd \<Rightarrow> string option) \<Rightarrow> clause \<Rightarrow> 'd \<Rightarrow> bool" where
  "satisfies field (WhereEq name v) d = (field name d = Some v)"
| "satisfies field (WhereIn name vs) d =
     (case field name d of None \<Rightarrow> False | Some v \<Rightarrow> v \<in> set vs)"
| "satisfies field (Limit n) d = True"

fun limited :: "clause list \<Rightarrow> 'a list \<Rightarrow> 'a list" where
  "limited [] ds = ds"
| "limited (Limit n # cs) ds = limited cs (take n ds)"
| "limited (c # cs) ds = limited cs ds"

definition runQuery ::
  "(string \<Rightarrow> 'd \<Rightarrow> string option) \<Rightarrow> clause list \<Rightarrow> (string \<times> 'd) list \<Rightarrow> (string \<times> 'd) list"
where
  "runQuery field cs ds =
     limited cs (filter (\<lambda>doc. list_all (\<lambda>c. satisfies field c (snd doc)) cs) ds)"

text \<open>
  Modelled from the spec: \<^verbatim>\<open>query.get()\<close> of the absent service. It rejects when the
  service fails the request and resolves with the matching documents otherwise.
\<close>

definition get ::
  "service \<Rightarrow> collection \<Rightarrow> (string \<Rightarrow> 'd \<Rightarrow> string option) \<Rightarrow> clause list
     \<Rightarrow> (string \<times> 'd) list \<Rightarrow> error + (string \<times> 'd) list"
where
  "get svc c field cs ds =
     (if fails svc (ReqGet c cs) then Inl RemoteServiceFailure
      else Inr (runQuery field cs ds))"

text \<open>
  Modelled from the spec: \<^verbatim>\<open>FieldValue.arrayUnion\<close> and \<^verbatim>\<open>FieldValue.arrayRemove\<close> of the
  absent \<^verbatim>\<open>lib/firebase\<close>. The union adds the element when it is not in the array yet
  (union by value, at the end); the removal takes every occurrence out.
\<close>

datatype 'a fieldValue = ArrayUnion 'a | ArrayRemove 'a

fun applyFieldValue :: "'a fieldValue \<Rightarrow> 'a list \<Rightarrow> 'a list" where
  "applyFieldValue (ArrayUnion x) xs = (if x \<in> set xs then xs else xs @ [x])"
| "applyFieldValue (ArrayRemove x) xs = filter (\<lambda>y. y \<noteq> x) xs"

text \<open>
  Modelled from the spec: \<^verbatim>\<open>ref.update(...)\<close> of the absent service. The document is
  addressed by its identifier; the update rejects when the service fails the request or
  holds no such document, and changes that document alone otherwise.
\<close>

definition update ::
  "service \<Rightarrow> collection \<Rightarrow> string \<Rightarrow> ('d \<Rightarrow> 'd) \<Rightarrow> (string \<times> 'd) list
     \<Rightarrow> error + (string \<times> 'd) list"
where
  "update svc c i f ds =
     (if fails svc (ReqUpdate c i) then Inl RemoteServiceFailure
      else if i \<notin> fst ` set ds then Inl NoSuchDocument
      else Inr (map (\<lambda>doc. if fst doc = i then (fst doc, f (snd doc)) else doc) ds))"

text \<open>
  Modelled from the spec: \<^verbatim>\<open>collection.add(...)\<close> of the absent service. The new document
  gets the identifier the service assigns and is stored verbatim.
\<close>

definition add ::
  "service \<Rightarrow> user \<Rightarrow> (string \<times> user) list \<Rightarrow> error + string \<times> (string \<times> user) list"
where
  "add svc u ds =
     (if fails svc (ReqAdd Users) then Inl RemoteServiceFailure
      else Inr (autoId svc ds, ds @ [(autoId svc ds, u)]))"

text \<open>Document identifiers are unique within a collection.\<close>

definition wellFormed :: "'c database \<Rightarrow> bool" where
  "wellFormed db = (distinct (map fst (users db)) \<and> distinct (map fst (photos db)))"

section \<open>The data-access layer\<close>

text \<open>
  An \<^verbatim>\<open>async\<close> function is modelled by the outcome of the promise it returns
  (\<open>Inl\<close> rejected, \<open>Inr\<close> resolved), together with the state of the service once the
  requests it issued have settled when it issues writes.
\<close>

definition withUserDocId :: "string \<times> user \<Rightarrow> userDoc" where
  "withUserDocId doc = user.extend (snd doc) (userDoc.fields (fst doc))"

definition withPhotoDocId :: "string \<times> 'c photo \<Rightarrow> 'c photoDoc" where
  "withPhotoDocId doc = photo.extend (snd doc) (photoDoc.fields (fst doc))"

definition doesUserExist :: "service \<Rightarrow> 'c database \<Rightarrow> string \<Rightarrow> error + nat" where
  "doesUserExist svc db username' =
     (case get svc Users userField [WhereEq ''username'' username'] (users db) of
        Inl e \<Rightarrow> Inl e
      | Inr docs \<Rightarrow> Inr (length (map snd docs)))"

definition createFirestoreUser ::
  "service \<Rightarrow> user \<Rightarrow> 'c database \<Rightarrow> (error + string) \<times> 'c database"
where
  "createFirestoreUser svc userObject db =
     (case add svc userObject (users db) of
        Inl e \<Rightarrow> (Inl e, db)
      | Inr (i, ds) \<Rightarrow> (Inr i, db\<lparr>users := ds\<rparr>))"

text \<open>
  \<^verbatim>\<open>const [user] = docs.map(...)\<close> takes the first element, and \<^verbatim>\<open>undefined\<close> (\<open>None\<close>)
  when there is none.
\<close>

definition getUserDataByUserId ::
  "service \<Rightarrow> 'c database \<Rightarrow> string \<Rightarrow> error + userDoc option"
where
  "getUserDataByUserId svc db userId' =
     (case get svc Users userField [WhereEq ''userId'' userId'] (users db) of
        Inl e \<Rightarrow> Inl e
      | Inr docs \<Rightarrow>
          (case map withUserDocId docs of
             [] \<Rightarrow> Inr None
           | user' # _ \<Rightarrow> Inr (Some user')))"

definition getSuggestedProfilesByUserId ::
  "service \<Rightarrow> 'c database \<Rightarrow> string \<Rightarrow> string list \<Rightarrow> nat \<Rightarrow> error + userDoc list"
where
  "getSuggestedProfilesByUserId svc db userId' userFollowing limitQuery =
     (case get svc Users userField [Limit limitQuery] (users db) of
        Inl e \<Rightarrow> Inl e
      | Inr docs \<Rightarrow>
          Inr (filter
                (\<lambda>profile. user.userId profile \<noteq> userId'
                   \<and> \<not> (user.userId profile \<in> set userFollowing))
                (map withUserDocId docs)))"

text \<open>
  \<^verbatim>\<open>updateUserFollowingField\<close> issues one update per matching document and does not wait
  for any of them: the promises made inside \<^verbatim>\<open>docs.map\<close> are dropped, so the function
  resolves once the query has, whatever becomes of the updates. An update that is rejected
  changes nothing.
\<close>

definition issueUpdate ::
  "service \<Rightarrow> (user \<Rightarrow> user) \<Rightarrow> 'c database \<Rightarrow> string \<times> user \<Rightarrow> 'c database"
where
  "issueUpdate svc f db doc =
     (case update svc Users (fst doc) f (users db) of
        Inl e \<Rightarrow> db
      | Inr ds \<Rightarrow> db\<lparr>users := ds\<rparr>)"

definition updateUserFollowingField ::
  "service \<Rightarrow> string \<Rightarrow> string \<Rightarrow> bool \<Rightarrow> 'c database \<Rightarrow> (error + unit) \<times> 'c database"
where
  "updateUserFollowingField svc suggestedUserId userId' userFollowingStatus db =
     (case get svc Users userField [WhereEq ''userId'' userId'] (users db) of
        Inl e \<Rightarrow> (Inl e, db)
      | Inr docs \<Rightarrow>
          (Inr (),
           foldl
             (issueUpdate svc
               (following_update
                 (applyFieldValue
                   (if userFollowingStatus then ArrayRemove suggestedUserId
                    else ArrayUnion suggestedUserId))))
             db docs))"

definition updateUserFollowersField ::
  "service \<Rightarrow> string \<Rightarrow> string \<Rightarrow> bool \<Rightarrow> 'c database \<Rightarrow> (error + unit) \<times> 'c database"
where
  "updateUserFollowersField svc suggestedUserDocId userId' userFollowingStatus db =
     (case update svc Users suggestedUserDocId
             (followers_update
               (applyFieldValue
                 (if userFollowingStatus then ArrayRemove userId' else ArrayUnion userId')))
             (users db) of
        Inl e \<Rightarrow> (Inl e, db)
      | Inr ds \<Rightarrow> (Inr (), db\<lparr>users := ds\<rparr>))"

text \<open>
  \<^verbatim>\<open>Promise.all\<close> resolves with every result when all promises resolve and rejects as soon
  as one rejects; a list stands for the promises, so the rejection is the first one in it.
\<close>

fun promiseAll :: "(error + 'a) list \<Rightarrow> error + 'a list" where
  "promiseAll [] = Inr []"
| "promiseAll (Inl e # rs) = Inl e"
| "promiseAll (Inr x # rs) = (case promiseAll rs of Inl e \<Rightarrow> Inl e | Inr xs \<Rightarrow> Inr (x # xs))"

text \<open>
  The callback of \<^verbatim>\<open>userFollowedPhotos.map\<close>. Destructuring the result of
  \<^verbatim>\<open>getUserDataByUserId\<close> throws a \<^verbatim>\<open>TypeError\<close> when that result is \<^verbatim>\<open>undefined\<close>.
  In \<^verbatim>\<open>{ user, ...photo, userLikedPhoto, userSavedPhoto }\<close> the fields of the photo are
  spread after \<^verbatim>\<open>user\<close>, so a \<^verbatim>\<open>user\<close> field of the photo document takes the place
  of the joined object; the two flags come last.
\<close>

definition photoWithUserData ::
  "service \<Rightarrow> 'c database \<Rightarrow> string \<Rightarrow> 'c photoDoc \<Rightarrow> error + 'c feedPhoto"
where
  "photoWithUserData svc db userId' photo' =
     (let userLikedPhoto' = (if userId' \<in> set (likes photo') then True else False);
          userSavedPhoto' = (if userId' \<in> set (saved photo') then True else False)
      in case getUserDataByUserId svc db (photo.userId photo') of
           Inl e \<Rightarrow> Inl e
         | Inr None \<Rightarrow> Inl TypeError
         | Inr (Some owner) \<Rightarrow>
             (let user' = JObject
                    [(''username'', JString (user.username owner)),
                     (''photoURL'', JString (user.photoURL owner)),
                     (''verifiedUser'', JBool (user.verifiedUser owner)),
                     (''docId'', JString (userDoc.docId owner))]
              in Inr (photoDoc.extend
                       (photo'\<lparr>user := Some (case user photo' of
                                                 None \<Rightarrow> user'
                                               | Some stored \<Rightarrow> stored)\<rparr>)
                       (feedPhoto.fields userLikedPhoto' userSavedPhoto'))))"

definition getFollowingUserPhotosByUserId ::
  "service \<Rightarrow> 'c database \<Rightarrow> string \<Rightarrow> string list \<Rightarrow> error + 'c feedPhoto list"
where
  "getFollowingUserPhotosByUserId svc db userId' userFollowing =
     (case get svc Photos photoField [WhereIn ''userId'' userFollowing] (photos db) of
        Inl e \<Rightarrow> Inl e
      | Inr docs \<Rightarrow>
          promiseAll (map (photoWithUserData svc db userId') (map withPhotoDocId docs)))"

text \<open>
  \<^verbatim>\<open>Array.prototype.sort\<close> with a comparison function: a stable sort that puts \<open>a\<close>
  before \<open>b\<close> when \<open>compare a b \<le> 0\<close>.
\<close>

fun insertSorted :: "('a \<Rightarrow> 'a \<Rightarrow> int) \<Rightarrow> 'a \<Rightarrow> 'a list \<Rightarrow> 'a list" where
  "insertSorted compare x [] = [x]"
| "insertSorted compare x (y # ys) =
     (if compare x y \<le> 0 then x # y # ys else y # insertSorted compare x ys)"

definition sortBy :: "('a \<Rightarrow> 'a \<Rightarrow> int) \<Rightarrow> 'a list \<Rightarrow> 'a list" where
  "sortBy compare xs = foldr (insertSorted compare) xs []"

definition getUserPhotosByUserId ::
  "service \<Rightarrow> 'c database \<Rightarrow> string \<Rightarrow> nat \<Rightarrow> error + 'c photoDoc list"
where
  "getUserPhotosByUserId svc db userId' limitQuery =
     (case get svc Photos photoField [WhereEq ''userId'' userId', Limit limitQuery] (photos db) of
        Inl e \<Rightarrow> Inl e
      | Inr docs \<Rightarrow>
          Inr (sortBy (\<lambda>a b. dateCreated b - dateCreated a) (map withPhotoDocId docs)))"

definition addPostComments ::
  "service \<Rightarrow> string \<Rightarrow> 'c \<Rightarrow> 'c database \<Rightarrow> (error + unit) \<times> 'c database"
where
  "addPostComments svc postDocId newPostComment db =
     (case update svc Photos postDocId
             (comments_update (applyFieldValue (ArrayUnion newPostComment)))
             (photos db) of
        Inl e \<Rightarrow> (Inl e, db)
      | Inr ds \<Rightarrow> (Inr (), db\<lparr>photos := ds\<rparr>))"

section \<open>Example states\<close>

text \<open>A service that fails no request, and a small state to run the functions on.\<close>

definition exampleService :: service where
  "exampleService = \<lparr>fails = (\<lambda>r. False), autoId = (\<lambda>ds. ''d9'')\<rparr>"

definition newUser :: "string \<Rightarrow> string \<Rightarrow> string list \<Rightarrow> user" where
  "newUser i name fs =
     \<lparr>user.userId = i, user.username = name, emailAddress = name @ ''@example.org'',
      user.photoURL = [], user.verifiedUser = False, following = fs, followers = [],
      savedPosts = []\<rparr>"

definition newPhoto :: "string \<Rightarrow> int \<Rightarrow> string list \<Rightarrow> string list \<Rightarrow> string photo" where
  "newPhoto i t ls ss =
     \<lparr>photo.userId = i, dateCreated = t, likes = ls, saved = ss, comments = [], user = None\<rparr>"

definition exampleDb :: "string database" where
  "exampleDb =
     \<lparr>users =
        [(''d1'', newUser ''u1'' ''alice'' []),
         (''d2'', newUser ''u2'' ''bob'' [''u1'']),
         (''d3'', newUser ''u3'' ''carol'' [])],
      photos =
        [(''p1'', newPhoto ''u2'' 10 [''u1''] []),
         (''p2'', newPhoto ''u2'' 20 [] [''u1'']),
         (''p3'', newPhoto ''u3'' 5 [] []),
         (''p4'', newPhoto ''u2'' 20 [] [])]\<rparr>"

text \<open>A service that fails the update of the document \<^verbatim>\<open>d1\<close> and nothing else.\<close>

definition failingService :: service where
  "failingService = \<lparr>fails = (\<lambda>r. r = ReqUpdate Users ''d1''), autoId = (\<lambda>ds. ''d9'')\<rparr>"

text \<open>A state with a photo whose owner has no user document.\<close>

definition orphanDb :: "string database" where
  "orphanDb =
     \<lparr>users = [(''d1'', newUser ''u1'' ''alice'' [''u3''])],
      photos = [(''p3'', newPhoto ''u3'' 5 [] [])]\<rparr>"

text \<open>A state with a photo document that carries a \<^verbatim>\<open>user\<close> field of its own.\<close>

definition taggedDb :: "string database" where
  "taggedDb =
     \<lparr>users = [(''d2'', newUser ''u2'' ''bob'' [])],
      photos = [(''p1'', (newPhoto ''u2'' 10 [] [])\<lparr>user := Some (JString ''stored-in-photo'')\<rparr>)]\<rparr>"

text \<open>The documents of a collection after \<open>f\<close> was applied to those that satisfy \<open>P\<close>.\<close>

definition updatedWhere ::
  "(string \<times> 'd \<Rightarrow> bool) \<Rightarrow> ('d \<Rightarrow> 'd) \<Rightarrow> (string \<times> 'd) list \<Rightarrow> (string \<times> 'd) list"
where
  "updatedWhere P f ds = map (\<lambda>doc. if P doc then (fst doc, f (snd doc)) else doc) ds"

section \<open>Queries of the layer, evaluated\<close>

lemma runQuery_userId:
  "runQuery userField [WhereEq ''userId'' u] ds = filter (\<lambda>doc. user.userId (snd doc) = u) ds"
  by (simp add: runQuery_def userField_def)

lemma runQuery_username:
  "runQuery userField [WhereEq ''username'' u] ds =
     filter (\<lambda>doc. user.username (snd doc) = u) ds"
  by (simp add: runQuery_def userField_def)

lemma runQuery_limit: "runQuery field [Limit n] ds = take n ds"
  by (simp add: runQuery_def)

lemma runQuery_photos_in:
  "runQuery photoField [WhereIn ''userId'' vs] ds =
     filter (\<lambda>doc. photo.userId (snd doc) \<in> set vs) ds"
  by (simp add: runQuery_def photoField_def)

lemma runQuery_photos_limit:
  "runQuery photoField [WhereEq ''userId'' u, Limit n] ds =
     take n (filter (\<lambda>doc. photo.userId (snd doc) = u) ds)"
  by (simp add: runQuery_def photoField_def)

lemma withUserDocId_docId: "userDoc.docId (withUserDocId doc) = fst doc"
  by (simp add: withUserDocId_def user.extend_def userDoc.fields_def)

lemma withUserDocId_data: "user.truncate (withUserDocId doc) = snd doc"
  by (simp add: withUserDocId_def user.extend_def user.truncate_def)

lemma withUserDocId_userId: "user.userId (withUserDocId doc) = user.userId (snd doc)"
  by (simp add: withUserDocId_def user.extend_def)

lemma find_filter: "List.find P xs = (case filter P xs of [] \<Rightarrow> None | x # _ \<Rightarrow> Some x)"
  by (induction xs) auto

lemma withPhotoDocId_userId: "photo.userId (withPhotoDocId doc) = photo.userId (snd doc)"
  by (simp add: withPhotoDocId_def photo.extend_def)

lemma getUserData_eq:
  "\<not> fails svc (ReqGet Users [WhereEq ''userId'' uid]) \<Longrightarrow>
   getUserDataByUserId svc db uid =
     Inr (map_option withUserDocId (List.find (\<lambda>doc. user.userId (snd doc) = uid) (users db)))"
  by (simp add: getUserDataByUserId_def get_def runQuery_userId find_filter split: list.splits)

lemma getUserData_Inr:
  "getUserDataByUserId svc db uid = Inr r \<Longrightarrow>
   r = map_option withUserDocId (List.find (\<lambda>doc. user.userId (snd doc) = uid) (users db))"
  by (cases "fails svc (ReqGet Users [WhereEq ''userId'' uid])")
     (simp_all add: getUserData_eq, simp add: getUserDataByUserId_def get_def)

section \<open>User lookup and existence check\<close>

text \<open>
  C6. When the query is answered, \<open>getUserDataByUserId\<close> resolves with the first user
  document whose \<open>userId\<close> matches, merged with the identifier of that document, and it
  resolves with \<^verbatim>\<open>undefined\<close> (\<open>None\<close>), not with a rejection, when no document matches.
\<close>

theorem getUserDataByUserId_first_match:
  assumes "\<not> fails svc (ReqGet Users [WhereEq ''userId'' uid])"
  shows "getUserDataByUserId svc db uid =
           Inr (map_option withUserDocId
                  (List.find (\<lambda>doc. user.userId (snd doc) = uid) (users db)))
         \<and> (\<forall>doc. List.find (\<lambda>doc. user.userId (snd doc) = uid) (users db) = Some doc \<longrightarrow>
               userDoc.docId (withUserDocId doc) = fst doc
               \<and> user.truncate (withUserDocId doc) = snd doc)
         \<and> ((\<forall>doc \<in> set (users db). user.userId (snd doc) \<noteq> uid) \<longrightarrow>
               getUserDataByUserId svc db uid = Inr None)"
proof -
  let ?P = "\<lambda>doc. user.userId (snd doc) = uid"
  have r: "getUserDataByUserId svc db uid =
             (case filter ?P (users db) of
                [] \<Rightarrow> Inr None
              | doc # _ \<Rightarrow> Inr (Some (withUserDocId doc)))"
    using assms
    by (simp add: getUserDataByUserId_def get_def runQuery_userId split: list.splits)
  have 1: "getUserDataByUserId svc db uid =
             Inr (map_option withUserDocId (List.find ?P (users db)))"
    by (simp add: r find_filter split: list.splits)
  have 3: "(\<forall>doc \<in> set (users db). \<not> ?P doc) \<longrightarrow> getUserDataByUserId svc db uid = Inr None"
  proof
    assume "\<forall>doc \<in> set (users db). \<not> ?P doc"
    then have "filter ?P (users db) = []" by (simp add: filter_empty_conv)
    then show "getUserDataByUserId svc db uid = Inr None" by (simp add: r)
  qed
  show ?thesis using 1 3 by (simp add: withUserDocId_docId withUserDocId_data)
qed

theorem getUserDataByUserId_first_match_witness:
  "\<not> fails exampleService (ReqGet Users [WhereEq ''userId'' ''u2''])
   \<and> getUserDataByUserId exampleService exampleDb ''u2''
       = Inr (Some (withUserDocId (''d2'', newUser ''u2'' ''bob'' [''u1''])))"
  using getUserDataByUserId_first_match [of exampleService "''u2''" exampleDb]
  by (simp add: exampleService_def exampleDb_def newUser_def)

text \<open>
  C7. When the query is answered, \<open>doesUserExist\<close> resolves with the number of user
  documents whose \<open>username\<close> matches: 0 when there is none, and one more than before
  (so at least 1, and not clamped to 1) once \<open>createFirestoreUser\<close> has inserted a user
  object with that username.
\<close>

theorem doesUserExist_counts:
  assumes "\<not> fails svc (ReqGet Users [WhereEq ''username'' U])"
  shows "doesUserExist svc db U =
           Inr (length (filter (\<lambda>doc. user.username (snd doc) = U) (users db)))
         \<and> ((\<forall>doc \<in> set (users db). user.username (snd doc) \<noteq> U) \<longrightarrow>
               doesUserExist svc db U = Inr 0)
         \<and> (\<forall>userObject i db'.
               user.username userObject = U
               \<and> createFirestoreUser svc userObject db = (Inr i, db') \<longrightarrow>
               doesUserExist svc db' U =
                 Inr (Suc (length (filter (\<lambda>doc. user.username (snd doc) = U) (users db)))))"
proof -
  let ?P = "\<lambda>doc. user.username (snd doc) = U"
  have r: "doesUserExist svc d U = Inr (length (filter ?P (users d)))" for d :: "'a database"
    using assms by (simp add: doesUserExist_def get_def runQuery_username)
  have 2: "(\<forall>doc \<in> set (users db). \<not> ?P doc) \<longrightarrow> doesUserExist svc db U = Inr 0"
    by (simp add: r filter_empty_conv)
  have 3: "doesUserExist svc db' U = Inr (Suc (length (filter ?P (users db))))"
    if "user.username userObject = U" "createFirestoreUser svc userObject db = (Inr i, db')"
    for userObject i db'
  proof -
    from that(2) have "users db' = users db @ [(autoId svc (users db), userObject)]"
      by (auto simp: createFirestoreUser_def add_def split: if_splits)
    then show ?thesis using that(1) by (simp add: r)
  qed
  show ?thesis using r 2 3 by blast
qed

theorem doesUserExist_counts_witness:
  "\<not> fails exampleService (ReqGet Users [WhereEq ''username'' ''dave''])
   \<and> doesUserExist exampleService exampleDb ''dave'' = Inr 0
   \<and> doesUserExist exampleService
       (snd (createFirestoreUser exampleService (newUser ''u4'' ''dave'' []) exampleDb)) ''dave''
       = Inr 1"
proof -
  have h: "\<not> fails exampleService (ReqGet Users [WhereEq ''username'' ''dave''])"
    by (simp add: exampleService_def)
  have c: "createFirestoreUser exampleService (newUser ''u4'' ''dave'' []) exampleDb
             = (Inr ''d9'',
                snd (createFirestoreUser exampleService (newUser ''u4'' ''dave'' []) exampleDb))"
    by (simp add: createFirestoreUser_def add_def exampleService_def)
  have n: "user.username (newUser ''u4'' ''dave'' []) = ''dave''"
    by (simp add: newUser_def)
  have z: "length (filter (\<lambda>doc. user.username (snd doc) = ''dave'') (users exampleDb)) = 0"
    by (simp add: exampleDb_def newUser_def)
  from doesUserExist_counts [OF h, of exampleDb] h c n z show ?thesis
    by (metis One_nat_def)
qed

section \<open>Comments\<close>

text \<open>
  C8. When the update is accepted, \<open>addPostComments\<close> on a photo whose comments are
  empty leaves it with the one comment \<open>c\<close>, and adding the same \<open>c\<close> once more changes
  nothing: the array union adds by value, so the operation is idempotent.
\<close>

theorem addPostComments_idempotent:
  assumes "\<not> fails svc (ReqUpdate Photos postDocId)"
    and "(postDocId, p) \<in> set (photos db)"
  shows "\<exists>db1. addPostComments svc postDocId c db = (Inr (), db1)
           \<and> (comments p = [] \<longrightarrow> (postDocId, p\<lparr>comments := [c]\<rparr>) \<in> set (photos db1))
           \<and> (postDocId, p\<lparr>comments := applyFieldValue (ArrayUnion c) (comments p)\<rparr>)
                \<in> set (photos db1)
           \<and> addPostComments svc postDocId c db1 = (Inr (), db1)"
proof -
  define f :: "'a photo \<Rightarrow> 'a photo"
    where "f = comments_update (applyFieldValue (ArrayUnion c))"
  define g :: "string \<times> 'a photo \<Rightarrow> string \<times> 'a photo"
    where "g = (\<lambda>doc. if fst doc = postDocId then (fst doc, f (snd doc)) else doc)"
  define db1 where "db1 = db\<lparr>photos := map g (photos db)\<rparr>"
  have ph: "photos db1 = map g (photos db)"
    by (simp add: db1_def)
  have present: "postDocId \<in> fst ` set (photos db)"
    using assms(2) by force
  have first: "addPostComments svc postDocId c db = (Inr (), db1)"
    using assms(1) present by (simp add: addPostComments_def update_def db1_def g_def f_def)
  have "g (postDocId, p) \<in> g ` set (photos db)"
    using assms(2) by (rule imageI)
  moreover have "g (postDocId, p)
      = (postDocId, p\<lparr>comments := applyFieldValue (ArrayUnion c) (comments p)\<rparr>)"
    by (simp add: g_def f_def)
  ultimately have mem:
    "(postDocId, p\<lparr>comments := applyFieldValue (ArrayUnion c) (comments p)\<rparr>)
       \<in> set (photos db1)"
    by (simp only: ph set_map)
  have idem: "f (f q) = f q" for q
    by (simp add: f_def)
  have gg: "g (g doc) = g doc" for doc
    by (simp add: g_def idem)
  have fst_g: "fst (g doc) = fst doc" for doc
    by (simp add: g_def)
  have "map g (photos db1) = photos db1"
    by (simp add: ph gg)
  then have same: "db1\<lparr>photos := map g (photos db1)\<rparr> = db1"
    by simp
  have "fst ` set (photos db1) = fst ` set (photos db)"
    by (simp add: ph image_image fst_g)
  then have "postDocId \<in> fst ` set (photos db1)"
    using present by simp
  then have "addPostComments svc postDocId c db1
               = (Inr (), db1\<lparr>photos := map g (photos db1)\<rparr>)"
    using assms(1) by (simp add: addPostComments_def update_def g_def f_def)
  then have second: "addPostComments svc postDocId c db1 = (Inr (), db1)"
    by (simp only: same)
  from mem have "comments p = [] \<longrightarrow> (postDocId, p\<lparr>comments := [c]\<rparr>) \<in> set (photos db1)"
    by auto
  with first mem second show ?thesis by blast
qed

theorem addPostComments_idempotent_witness:
  "\<not> fails exampleService (ReqUpdate Photos ''p3'')
   \<and> (''p3'', newPhoto ''u3'' 5 [] []) \<in> set (photos exampleDb)
   \<and> (\<exists>db1. addPostComments exampleService ''p3'' ''nice'' exampleDb = (Inr (), db1)
         \<and> (''p3'', (newPhoto ''u3'' 5 [] [])\<lparr>comments := [''nice'']\<rparr>) \<in> set (photos db1)
         \<and> addPostComments exampleService ''p3'' ''nice'' db1 = (Inr (), db1))"
proof -
  have h1: "\<not> fails exampleService (ReqUpdate Photos ''p3'')"
    by (simp add: exampleService_def)
  have h2: "(''p3'', newPhoto ''u3'' 5 [] []) \<in> set (photos exampleDb)"
    by (simp add: exampleDb_def)
  have e: "comments (newPhoto ''u3'' 5 [] []) = []"
    by (simp add: newPhoto_def)
  from addPostComments_idempotent [OF h1 h2, of "''nice''"] e h1 h2 show ?thesis
    by blast
qed

section \<open>Suggested profiles\<close>

lemma getSuggested_eq:
  "\<not> fails svc (ReqGet Users [Limit L]) \<Longrightarrow>
   getSuggestedProfilesByUserId svc db uid F L =
     Inr (filter (\<lambda>profile. user.userId profile \<noteq> uid \<and> user.userId profile \<notin> set F)
            (map withUserDocId (take L (users db))))"
  by (simp add: getSuggestedProfilesByUserId_def get_def runQuery_limit)

lemma getSuggested_Inr:
  "getSuggestedProfilesByUserId svc db uid F L = Inr ps \<Longrightarrow>
   ps = filter (\<lambda>profile. user.userId profile \<noteq> uid \<and> user.userId profile \<notin> set F)
            (map withUserDocId (take L (users db)))"
  by (auto simp: getSuggestedProfilesByUserId_def get_def runQuery_limit split: if_splits)

lemma suggested_window_example:
  "getSuggestedProfilesByUserId exampleService exampleDb ''u1'' [] 1 = Inr []
   \<and> (''d2'', newUser ''u2'' ''bob'' [''u1'']) \<in> set (drop 1 (users exampleDb))
   \<and> user.userId (newUser ''u2'' ''bob'' [''u1'']) \<noteq> ''u1''"
  by (simp add: getSuggested_eq exampleService_def exampleDb_def newUser_def withUserDocId_userId)

text \<open>
  C3. A list that \<open>getSuggestedProfilesByUserId\<close> resolves with holds neither the
  requesting user nor anyone in \<open>userFollowing\<close>, and its length is the size of the
  fetched window, at most the limit, minus the profiles of the window that the filter
  excludes. The filter runs after the limit, so the list can be shorter than the limit
  while an eligible profile sits outside the window: in the example state, limit 1 fetches
  only the requesting user and the result is empty, although \<^verbatim>\<open>u2\<close> is eligible.
\<close>

theorem getSuggestedProfilesByUserId_filtered:
  assumes "getSuggestedProfilesByUserId svc db uid F L = Inr ps"
  shows "(\<forall>profile \<in> set ps. user.userId profile \<noteq> uid \<and> user.userId profile \<notin> set F)
         \<and> length ps \<le> L
         \<and> length ps + length (filter (\<lambda>doc. user.userId (snd doc) = uid \<or> user.userId (snd doc) \<in> set F)
                                  (take L (users db)))
             = length (take L (users db))
         \<and> (getSuggestedProfilesByUserId exampleService exampleDb ''u1'' [] 1 = Inr []
             \<and> (''d2'', newUser ''u2'' ''bob'' [''u1'']) \<in> set (drop 1 (users exampleDb))
             \<and> user.userId (newUser ''u2'' ''bob'' [''u1'']) \<noteq> ''u1'')"
proof -
  let ?keep = "\<lambda>profile. user.userId profile \<noteq> uid \<and> user.userId profile \<notin> set F"
  let ?excl = "\<lambda>doc. user.userId (snd doc) = uid \<or> user.userId (snd doc) \<in> set F"
  let ?w = "take L (users db)"
  have ps: "ps = filter ?keep (map withUserDocId ?w)"
    using assms by (rule getSuggested_Inr)
  have 1: "\<forall>profile \<in> set ps. ?keep profile"
    by (simp add: ps)
  have "length ps = length (filter (\<lambda>doc. \<not> ?excl doc) ?w)"
    by (simp add: ps filter_map o_def withUserDocId_userId)
  then have 3: "length ps + length (filter ?excl ?w) = length ?w"
    using sum_length_filter_compl [of ?excl ?w] by simp
  then have 2: "length ps \<le> L" by simp
  from 1 2 3 suggested_window_example show ?thesis by blast
qed

theorem getSuggestedProfilesByUserId_filtered_witness:
  "getSuggestedProfilesByUserId exampleService exampleDb ''u1'' [''u2''] 3
     = Inr [withUserDocId (''d3'', newUser ''u3'' ''carol'' [])]
   \<and> user.userId (withUserDocId (''d3'', newUser ''u3'' ''carol'' [])) \<noteq> ''u1''
   \<and> user.userId (withUserDocId (''d3'', newUser ''u3'' ''carol'' [])) \<notin> set [''u2'']
   \<and> length [withUserDocId (''d3'', newUser ''u3'' ''carol'' [])] \<le> 3"
proof -
  have r: "getSuggestedProfilesByUserId exampleService exampleDb ''u1'' [''u2''] 3
     = Inr [withUserDocId (''d3'', newUser ''u3'' ''carol'' [])]"
    by (simp add: getSuggested_eq exampleService_def exampleDb_def newUser_def withUserDocId_userId)
  note t = getSuggestedProfilesByUserId_filtered [OF r]
  from t have "\<forall>profile \<in> set [withUserDocId (''d3'', newUser ''u3'' ''carol'' [])].
         user.userId profile \<noteq> ''u1'' \<and> user.userId profile \<notin> set [''u2'']"
    by (rule conjunct1)
  then have a: "user.userId (withUserDocId (''d3'', newUser ''u3'' ''carol'' [])) \<noteq> ''u1''
      \<and> user.userId (withUserDocId (''d3'', newUser ''u3'' ''carol'' [])) \<notin> set [''u2'']"
    by simp
  from t have b: "length [withUserDocId (''d3'', newUser ''u3'' ''carol'' [])] \<le> 3"
    by (rule conjunct1 [OF conjunct2])
  from r a b show ?thesis by simp
qed

section \<open>Photos of a user\<close>

lemma mset_insertSorted: "mset (insertSorted cmp x ys) = add_mset x (mset ys)"
  by (induction ys) auto

lemma mset_sortBy: "mset (sortBy cmp xs) = mset xs"
  by (induction xs) (auto simp: sortBy_def mset_insertSorted)

lemma set_insertSorted: "set (insertSorted cmp x ys) = insert x (set ys)"
  using mset_insertSorted [of cmp x ys, THEN arg_cong, of set_mset] by simp

lemma sorted_insertSorted_desc:
  "sorted_wrt (\<lambda>a b. key b \<le> key a) ys \<Longrightarrow>
   sorted_wrt (\<lambda>a b. key b \<le> key a) (insertSorted (\<lambda>a b. key b - key a) x ys)"
  for key :: "'a \<Rightarrow> int"
  by (induction ys) (auto simp: set_insertSorted)

lemma sorted_sortBy_desc:
  "sorted_wrt (\<lambda>a b. key b \<le> key a) (sortBy (\<lambda>a b. key b - key a) xs)"
  for key :: "'a \<Rightarrow> int"
  by (induction xs) (auto simp: sortBy_def sorted_insertSorted_desc)
lemma getUserPhotos_Inr:
  "getUserPhotosByUserId svc db uid L = Inr ps \<Longrightarrow>
   ps = sortBy (\<lambda>a b. dateCreated b - dateCreated a)
          (map withPhotoDocId (take L (filter (\<lambda>doc. photo.userId (snd doc) = uid) (photos db))))"
  by (auto simp: getUserPhotosByUserId_def get_def runQuery_photos_limit split: if_splits)

text \<open>
  C4, as amended. A list that \<open>getUserPhotosByUserId\<close> resolves with holds only photos
  of the given user, at most \<open>limitQuery\<close> of them, it is a rearrangement of the documents
  fetched under the limit (the limit cuts before the sort), and it is sorted by
  \<open>dateCreated\<close> in descending order: each timestamp is greater than or equal to the
  next one. Equal timestamps stay next to each other, so the order is not strict.
\<close>

theorem getUserPhotosByUserId_sorted:
  assumes "getUserPhotosByUserId svc db uid L = Inr ps"
  shows "(\<forall>p \<in> set ps. photo.userId p = uid)
         \<and> length ps \<le> L
         \<and> sorted_wrt (\<lambda>a b. dateCreated b \<le> dateCreated a) ps
         \<and> mset ps = mset (map withPhotoDocId
                             (take L (filter (\<lambda>doc. photo.userId (snd doc) = uid) (photos db))))"
proof -
  define fetched where
    "fetched = take L (filter (\<lambda>doc. photo.userId (snd doc) = uid) (photos db))"
  have ps: "ps = sortBy (\<lambda>a b. dateCreated b - dateCreated a) (map withPhotoDocId fetched)"
    unfolding fetched_def using assms by (rule getUserPhotos_Inr)
  have m: "mset ps = mset (map withPhotoDocId fetched)"
    by (simp only: ps mset_sortBy)
  have owner: "photo.userId (snd doc) = uid" if "doc \<in> set fetched" for doc
  proof -
    from that have "doc \<in> set (filter (\<lambda>doc. photo.userId (snd doc) = uid) (photos db))"
      unfolding fetched_def by (rule in_set_takeD)
    then show ?thesis by simp
  qed
  have "set_mset (mset ps) = set_mset (mset (map withPhotoDocId fetched))"
    by (simp only: m)
  then have sp: "set ps = withPhotoDocId ` set fetched"
    by (simp only: set_mset_mset set_map)
  have 1: "\<forall>p \<in> set ps. photo.userId p = uid"
  proof
    fix p
    assume "p \<in> set ps"
    then obtain doc where d: "doc \<in> set fetched" and p: "p = withPhotoDocId doc"
      unfolding sp by (rule imageE)
    show "photo.userId p = uid"
      by (simp only: p withPhotoDocId_userId owner [OF d])
  qed
  have "size (mset ps) = size (mset (map withPhotoDocId fetched))"
    by (simp only: m)
  then have "length ps = length fetched"
    by (simp only: size_mset length_map)
  moreover have "length fetched \<le> L"
    by (simp add: fetched_def)
  ultimately have 2: "length ps \<le> L"
    by (simp only:)
  have 3: "sorted_wrt (\<lambda>a b. dateCreated b \<le> dateCreated a) ps"
    unfolding ps by (rule sorted_sortBy_desc)
  show ?thesis
    using 1 2 3 m unfolding fetched_def by (intro conjI)
qed

theorem getUserPhotosByUserId_sorted_witness:
  "getUserPhotosByUserId exampleService exampleDb ''u2'' 2
     = Inr [withPhotoDocId (''p2'', newPhoto ''u2'' 20 [] [''u1'']),
            withPhotoDocId (''p1'', newPhoto ''u2'' 10 [''u1''] [])]
   \<and> sorted_wrt (\<lambda>a b. dateCreated b \<le> dateCreated a)
       [withPhotoDocId (''p2'', newPhoto ''u2'' 20 [] [''u1'']),
        withPhotoDocId (''p1'', newPhoto ''u2'' 10 [''u1''] [])]"
proof -
  have r: "getUserPhotosByUserId exampleService exampleDb ''u2'' 2
     = Inr [withPhotoDocId (''p2'', newPhoto ''u2'' 20 [] [''u1'']),
            withPhotoDocId (''p1'', newPhoto ''u2'' 10 [''u1''] [])]"
    by code_simp
  from getUserPhotosByUserId_sorted [OF r] have
    "sorted_wrt (\<lambda>a b. dateCreated b \<le> dateCreated a)
       [withPhotoDocId (''p2'', newPhoto ''u2'' 20 [] [''u1'']),
        withPhotoDocId (''p1'', newPhoto ''u2'' 10 [''u1''] [])]"
    by (rule conjunct1 [OF conjunct2 [OF conjunct2]])
  with r show ?thesis by (rule conjI)
qed

text \<open>
  C4 as stated fails: the user \<^verbatim>\<open>u2\<close> of the example state has two photos created at
  time 20, and the result lists both, one after the other.
\<close>

theorem getUserPhotosByUserId_not_strict:
  "map_sum id (map dateCreated) (getUserPhotosByUserId exampleService exampleDb ''u2'' 25)
     = Inr [20, 20, 10]"
  by code_simp

section \<open>Feed assembly\<close>

lemma promiseAll_Inr: "promiseAll rs = Inr xs \<Longrightarrow> rs = map Inr xs"
proof (induction rs arbitrary: xs)
  case Nil
  then show ?case by simp
next
  case (Cons r rs)
  then show ?case by (cases r) (auto split: sum.splits)
qed

lemma promiseAll_rejects: "Inl e \<in> set rs \<Longrightarrow> \<exists>e'. promiseAll rs = Inl e'"
proof (induction rs)
  case Nil
  then show ?case by simp
next
  case (Cons r rs)
  then show ?case by (cases r) (auto split: sum.splits)
qed

lemma promiseAll_TypeError:
  "Inl TypeError \<in> set rs \<Longrightarrow> \<forall>e. Inl e \<in> set rs \<longrightarrow> e = TypeError \<Longrightarrow>
   promiseAll rs = Inl TypeError"
proof (induction rs)
  case Nil
  then show ?case by simp
next
  case (Cons r rs)
  then show ?case by (cases r) (auto split: sum.splits)
qed

lemma photoWithUserData_Inr:
  assumes "photoWithUserData svc db uid ph = Inr fp"
  shows "\<exists>doc. List.find (\<lambda>doc. user.userId (snd doc) = photo.userId ph) (users db) = Some doc
           \<and> fp = photoDoc.extend
                    (ph\<lparr>user := Some (case user ph of
                                         None \<Rightarrow> JObject
                                           [(''username'', JString (user.username (snd doc))),
                                            (''photoURL'', JString (user.photoURL (snd doc))),
                                            (''verifiedUser'', JBool (user.verifiedUser (snd doc))),
                                            (''docId'', JString (fst doc))]
                                       | Some stored \<Rightarrow> stored)\<rparr>)
                    (feedPhoto.fields (uid \<in> set (likes ph)) (uid \<in> set (saved ph)))"
proof -
  from assms obtain owner where
    g: "getUserDataByUserId svc db (photo.userId ph) = Inr (Some owner)"
    and fp: "fp = photoDoc.extend
                    (ph\<lparr>user := Some (case user ph of
                                         None \<Rightarrow> JObject
                                           [(''username'', JString (user.username owner)),
                                            (''photoURL'', JString (user.photoURL owner)),
                                            (''verifiedUser'', JBool (user.verifiedUser owner)),
                                            (''docId'', JString (userDoc.docId owner))]
                                       | Some stored \<Rightarrow> stored)\<rparr>)
                    (feedPhoto.fields (uid \<in> set (likes ph)) (uid \<in> set (saved ph)))"
    by (auto simp: photoWithUserData_def Let_def split: sum.splits option.splits)
  from getUserData_Inr [OF g, symmetric] obtain doc where
    f: "List.find (\<lambda>doc. user.userId (snd doc) = photo.userId ph) (users db) = Some doc"
    and o: "owner = withUserDocId doc"
    by auto
  have "user.username owner = user.username (snd doc)"
    "user.photoURL owner = user.photoURL (snd doc)"
    "user.verifiedUser owner = user.verifiedUser (snd doc)" "userDoc.docId owner = fst doc"
    by (simp_all add: o withUserDocId_def user.extend_def userDoc.fields_def)
  with fp f show ?thesis by (simp split: option.split)
qed

lemma getFollowing_Inr:
  assumes "getFollowingUserPhotosByUserId svc db uid F = Inr feed"
  shows "map Inr feed = map (photoWithUserData svc db uid)
           (map withPhotoDocId (filter (\<lambda>doc. photo.userId (snd doc) \<in> set F) (photos db)))"
  using assms
  by (auto simp: getFollowingUserPhotosByUserId_def get_def runQuery_photos_in
      split: if_splits dest!: promiseAll_Inr)

text \<open>
  C5, as amended. In every record of a feed that \<open>getFollowingUserPhotosByUserId\<close>
  resolves with, \<open>userLikedPhoto\<close> holds exactly when \<open>userId\<close> is in the \<open>likes\<close> of
  the photo and \<open>userSavedPhoto\<close> holds exactly when \<open>userId\<close> is in its \<open>saved\<close>.
  The feed has one record for each fetched photo, in the same order, and apart from
  \<open>user\<close> and the two flags a record is the fetched photo, so the \<open>likes\<close> and
  \<open>saved\<close> are the fetched ones. When the fetched photo document has no \<open>user\<close> field
  of its own, the \<open>user\<close> of the record is the object made of exactly the username,
  photo reference, verification flag and document identifier of the owner (the first user
  document whose \<open>userId\<close> is the photo's).
\<close>

theorem getFollowingUserPhotosByUserId_derived:
  assumes "getFollowingUserPhotosByUserId svc db uid F = Inr feed"
  shows "(\<forall>p \<in> set feed.
            userLikedPhoto p = (uid \<in> set (likes p))
          \<and> userSavedPhoto p = (uid \<in> set (saved p)))
         \<and> length feed
             = length (filter (\<lambda>doc. photo.userId (snd doc) \<in> set F) (photos db))
         \<and> (\<forall>k < length feed.
               photoDoc.truncate (feed ! k)
                 = (withPhotoDocId
                      (filter (\<lambda>doc. photo.userId (snd doc) \<in> set F) (photos db) ! k))
                   \<lparr>user := user (feed ! k)\<rparr>
             \<and> (user (snd (filter (\<lambda>doc. photo.userId (snd doc) \<in> set F) (photos db) ! k))
                    = None
                  \<longrightarrow> (\<exists>doc. List.find (\<lambda>doc. user.userId (snd doc) = photo.userId (feed ! k))
                                 (users db) = Some doc
                        \<and> user (feed ! k)
                            = Some (JObject
                                [(''username'', JString (user.username (snd doc))),
                                 (''photoURL'', JString (user.photoURL (snd doc))),
                                 (''verifiedUser'', JBool (user.verifiedUser (snd doc))),
                                 (''docId'', JString (fst doc))]))))"
proof -
  define docs where "docs = filter (\<lambda>doc. photo.userId (snd doc) \<in> set F) (photos db)"
  define fetched where "fetched = map withPhotoDocId docs"
  have m: "map Inr feed = map (photoWithUserData svc db uid) fetched"
    unfolding fetched_def docs_def using assms by (rule getFollowing_Inr)
  have "length (map Inr feed :: (error + 'a feedPhoto) list)
          = length (map (photoWithUserData svc db uid) fetched)"
    by (simp only: m)
  then have len: "length feed = length docs"
    by (simp add: fetched_def)
  have each: "photoWithUserData svc db uid (withPhotoDocId (docs ! k)) = Inr (feed ! k)"
    if k: "k < length feed" for k
  proof -
    have "(map Inr feed :: (error + 'a feedPhoto) list) ! k
            = map (photoWithUserData svc db uid) fetched ! k"
      by (simp only: m)
    then show ?thesis using k len by (simp add: fetched_def)
  qed
  have props: "userLikedPhoto (feed ! k) = (uid \<in> set (likes (feed ! k)))
             \<and> userSavedPhoto (feed ! k) = (uid \<in> set (saved (feed ! k)))
             \<and> photoDoc.truncate (feed ! k) = (withPhotoDocId (docs ! k))\<lparr>user := user (feed ! k)\<rparr>
             \<and> (user (snd (docs ! k)) = None
                  \<longrightarrow> (\<exists>doc. List.find (\<lambda>doc. user.userId (snd doc) = photo.userId (feed ! k))
                                 (users db) = Some doc
                        \<and> user (feed ! k)
                            = Some (JObject
                                [(''username'', JString (user.username (snd doc))),
                                 (''photoURL'', JString (user.photoURL (snd doc))),
                                 (''verifiedUser'', JBool (user.verifiedUser (snd doc))),
                                 (''docId'', JString (fst doc))])))"
    if k: "k < length feed" for k
  proof -
    define ph where "ph = withPhotoDocId (docs ! k)"
    from photoWithUserData_Inr [OF each [OF k]] obtain doc where
      f: "List.find (\<lambda>doc. user.userId (snd doc) = photo.userId ph) (users db) = Some doc"
      and fp: "feed ! k = photoDoc.extend
                    (ph\<lparr>user := Some (case user ph of
                                         None \<Rightarrow> JObject
                                           [(''username'', JString (user.username (snd doc))),
                                            (''photoURL'', JString (user.photoURL (snd doc))),
                                            (''verifiedUser'', JBool (user.verifiedUser (snd doc))),
                                            (''docId'', JString (fst doc))]
                                       | Some stored \<Rightarrow> stored)\<rparr>)
                    (feedPhoto.fields (uid \<in> set (likes ph)) (uid \<in> set (saved ph)))"
      unfolding ph_def by blast
    have u: "user ph = user (snd (docs ! k))"
      by (simp add: ph_def withPhotoDocId_def photo.extend_def)
    have a: "userLikedPhoto (feed ! k) = (uid \<in> set (likes (feed ! k)))"
      and b: "userSavedPhoto (feed ! k) = (uid \<in> set (saved (feed ! k)))"
      and c: "photoDoc.truncate (feed ! k) = ph\<lparr>user := user (feed ! k)\<rparr>"
      and i: "photo.userId (feed ! k) = photo.userId ph"
      by (simp_all add: fp photoDoc.extend_def feedPhoto.fields_def photoDoc.truncate_def)
    have d: "user (feed ! k)
               = Some (JObject
                   [(''username'', JString (user.username (snd doc))),
                    (''photoURL'', JString (user.photoURL (snd doc))),
                    (''verifiedUser'', JBool (user.verifiedUser (snd doc))),
                    (''docId'', JString (fst doc))])"
      if "user (snd (docs ! k)) = None"
      using that u by (simp add: fp photoDoc.extend_def)
    from f i have f': "List.find (\<lambda>doc. user.userId (snd doc) = photo.userId (feed ! k))
                         (users db) = Some doc"
      by simp
    from a b c d f' show ?thesis unfolding ph_def by blast
  qed
  have 1: "\<forall>p \<in> set feed.
            userLikedPhoto p = (uid \<in> set (likes p))
          \<and> userSavedPhoto p = (uid \<in> set (saved p))"
  proof
    fix p
    assume "p \<in> set feed"
    then obtain k where "k < length feed" and "p = feed ! k"
      by (auto simp: in_set_conv_nth)
    with props [of k] show "userLikedPhoto p = (uid \<in> set (likes p))
          \<and> userSavedPhoto p = (uid \<in> set (saved p))"
      by simp
  qed
  have 3: "\<forall>k < length feed.
               photoDoc.truncate (feed ! k) = (withPhotoDocId (docs ! k))\<lparr>user := user (feed ! k)\<rparr>
             \<and> (user (snd (docs ! k)) = None
                  \<longrightarrow> (\<exists>doc. List.find (\<lambda>doc. user.userId (snd doc) = photo.userId (feed ! k))
                                 (users db) = Some doc
                        \<and> user (feed ! k)
                            = Some (JObject
                                [(''username'', JString (user.username (snd doc))),
                                 (''photoURL'', JString (user.photoURL (snd doc))),
                                 (''verifiedUser'', JBool (user.verifiedUser (snd doc))),
                                 (''docId'', JString (fst doc))])))"
    using props by simp
  show ?thesis
    using 1 len 3 unfolding docs_def by (intro conjI)
qed

theorem getFollowingUserPhotosByUserId_derived_witness:
  "getFollowingUserPhotosByUserId exampleService exampleDb ''u1'' [''u2'']
     = Inr (projr (getFollowingUserPhotosByUserId exampleService exampleDb ''u1'' [''u2'']))
   \<and> map userLikedPhoto
         (projr (getFollowingUserPhotosByUserId exampleService exampleDb ''u1'' [''u2'']))
       = [True, False, False]
   \<and> map userSavedPhoto
         (projr (getFollowingUserPhotosByUserId exampleService exampleDb ''u1'' [''u2'']))
       = [False, True, False]
   \<and> user (projr (getFollowingUserPhotosByUserId exampleService exampleDb ''u1'' [''u2'']) ! 0)
       = Some (JObject
           [(''username'', JString ''bob''),
            (''photoURL'', JString []),
            (''verifiedUser'', JBool False),
            (''docId'', JString ''d2'')])
   \<and> length (projr (getFollowingUserPhotosByUserId exampleService exampleDb ''u1'' [''u2'']))
       = 3"
proof -
  have "\<not> isl (getFollowingUserPhotosByUserId exampleService exampleDb ''u1'' [''u2''])"
    by code_simp
  then have r: "getFollowingUserPhotosByUserId exampleService exampleDb ''u1'' [''u2'']
     = Inr (projr (getFollowingUserPhotosByUserId exampleService exampleDb ''u1'' [''u2'']))"
    by simp
  have l: "map userLikedPhoto
         (projr (getFollowingUserPhotosByUserId exampleService exampleDb ''u1'' [''u2'']))
       = [True, False, False]"
    by code_simp
  have s: "map userSavedPhoto
         (projr (getFollowingUserPhotosByUserId exampleService exampleDb ''u1'' [''u2'']))
       = [False, True, False]"
    by code_simp
  have u: "user (projr (getFollowingUserPhotosByUserId exampleService exampleDb ''u1'' [''u2'']) ! 0)
       = Some (JObject
           [(''username'', JString ''bob''),
            (''photoURL'', JString []),
            (''verifiedUser'', JBool False),
            (''docId'', JString ''d2'')])"
    by code_simp
  from getFollowingUserPhotosByUserId_derived [OF r]
  have "length (projr (getFollowingUserPhotosByUserId exampleService exampleDb ''u1'' [''u2'']))
          = length (filter (\<lambda>doc. photo.userId (snd doc) \<in> set [''u2'']) (photos exampleDb))"
    by (rule conjunct1 [OF conjunct2])
  also have "\<dots> = 3"
    by (simp add: exampleDb_def newPhoto_def)
  finally have n:
    "length (projr (getFollowingUserPhotosByUserId exampleService exampleDb ''u1'' [''u2''])) = 3" .
  show ?thesis
    by (rule conjI [OF r conjI [OF l conjI [OF s conjI [OF u n]]]])
qed

text \<open>
  C5 as stated fails: the photo \<^verbatim>\<open>p1\<close> of this state carries a \<^verbatim>\<open>user\<close> field of its
  own, its owner \<^verbatim>\<open>u2\<close> has a user document, and the record of the feed holds the stored
  value in \<open>user\<close>, not the projection of the owner.
\<close>

theorem getFollowingUserPhotosByUserId_stored_user:
  "getUserDataByUserId exampleService taggedDb ''u2''
     = Inr (Some (withUserDocId (''d2'', newUser ''u2'' ''bob'' [])))
   \<and> map_sum id (map user) (getFollowingUserPhotosByUserId exampleService taggedDb ''u1'' [''u2''])
       = Inr [Some (JString ''stored-in-photo'')]"
  by code_simp

text \<open>
  C9. \<open>getFollowingUserPhotosByUserId\<close> rejects whenever a fetched photo has an owner
  without a user document: the lookup of the owner gives \<^verbatim>\<open>undefined\<close> and destructuring
  it throws (a \<^verbatim>\<open>TypeError\<close> when the service fails no request). So a feed is returned
  only if every fetched photo has an owner among the user documents.
\<close>

theorem getFollowingUserPhotosByUserId_missing_owner:
  "((i, p) \<in> set (photos db) \<and> photo.userId p \<in> set F
      \<and> (\<forall>doc \<in> set (users db). user.userId (snd doc) \<noteq> photo.userId p)
     \<longrightarrow> (\<exists>e. getFollowingUserPhotosByUserId svc db uid F = Inl e)
         \<and> ((\<forall>r. \<not> fails svc r) \<longrightarrow> getFollowingUserPhotosByUserId svc db uid F = Inl TypeError))
   \<and> (getFollowingUserPhotosByUserId svc db uid F = Inr feed
     \<longrightarrow> (\<forall>doc \<in> set (photos db). photo.userId (snd doc) \<in> set F
            \<longrightarrow> (\<exists>owner \<in> set (users db). user.userId (snd owner) = photo.userId (snd doc))))"
proof -
  let ?fetched = "map withPhotoDocId (filter (\<lambda>doc. photo.userId (snd doc) \<in> set F) (photos db))"
  let ?rs = "map (photoWithUserData svc db uid) ?fetched"
  have noowner: "\<exists>e. photoWithUserData svc db uid (withPhotoDocId doc) = Inl e
                 \<and> (\<not> fails svc (ReqGet Users [WhereEq ''userId'' (photo.userId (snd doc))]) \<longrightarrow> e = TypeError)"
    if "\<forall>owner \<in> set (users db). user.userId (snd owner) \<noteq> photo.userId (snd doc)" for doc
  proof (cases "fails svc (ReqGet Users [WhereEq ''userId'' (photo.userId (snd doc))])")
    case True
    then show ?thesis
      by (simp add: photoWithUserData_def getUserDataByUserId_def get_def withPhotoDocId_userId)
  next
    case False
    from that have "List.find (\<lambda>owner. user.userId (snd owner) = photo.userId (snd doc)) (users db) = None"
      by (auto simp: find_None_iff)
    then show ?thesis using False
      by (simp add: photoWithUserData_def getUserData_eq withPhotoDocId_userId)
  qed
  have A: "(\<exists>e. getFollowingUserPhotosByUserId svc db uid F = Inl e)
         \<and> ((\<forall>r. \<not> fails svc r) \<longrightarrow> getFollowingUserPhotosByUserId svc db uid F = Inl TypeError)"
    if mem: "(i, p) \<in> set (photos db)" and inF: "photo.userId p \<in> set F"
      and no: "\<forall>doc \<in> set (users db). user.userId (snd doc) \<noteq> photo.userId p"
    for i p
  proof (cases "fails svc (ReqGet Photos [WhereIn ''userId'' F])")
    case True
    then show ?thesis by (auto simp: getFollowingUserPhotosByUserId_def get_def)
  next
    case False
    then have g: "getFollowingUserPhotosByUserId svc db uid F = promiseAll ?rs"
      by (simp add: getFollowingUserPhotosByUserId_def get_def runQuery_photos_in)
    from noowner [of "(i, p)"] no obtain e where
      e: "photoWithUserData svc db uid (withPhotoDocId (i, p)) = Inl e"
      and eT: "\<not> fails svc (ReqGet Users [WhereEq ''userId'' (photo.userId p)]) \<longrightarrow> e = TypeError"
      by auto
    have "withPhotoDocId (i, p) \<in> set ?fetched"
      using mem inF by force
    then have "photoWithUserData svc db uid (withPhotoDocId (i, p)) \<in> set ?rs"
      by (simp only: set_map) (rule imageI)
    then have in_rs: "Inl e \<in> set ?rs"
      by (simp only: e)
    have 1: "\<exists>e. getFollowingUserPhotosByUserId svc db uid F = Inl e"
      unfolding g using in_rs by (rule promiseAll_rejects)
    have 2: "getFollowingUserPhotosByUserId svc db uid F = Inl TypeError" if nf: "\<forall>r. \<not> fails svc r"
    proof -
      have "e = TypeError" using eT nf by simp
      with in_rs have a: "Inl TypeError \<in> set ?rs" by simp
      have b: "\<forall>e'. Inl e' \<in> set ?rs \<longrightarrow> e' = TypeError"
        using nf
        by (auto simp: photoWithUserData_def getUserDataByUserId_def get_def
            split: sum.splits option.splits list.splits)
      show ?thesis unfolding g using a b by (rule promiseAll_TypeError)
    qed
    from 1 2 show ?thesis by blast
  qed
  have B: "\<exists>owner \<in> set (users db). user.userId (snd owner) = photo.userId (snd doc)"
    if r: "getFollowingUserPhotosByUserId svc db uid F = Inr feed"
      and mem: "doc \<in> set (photos db)" and inF: "photo.userId (snd doc) \<in> set F" for doc
  proof (rule ccontr)
    assume "\<not> ?thesis"
    then have "\<forall>owner \<in> set (users db). user.userId (snd owner) \<noteq> photo.userId (snd doc)"
      by blast
    with A [of "fst doc" "snd doc"] mem inF r show False by auto
  qed
  from A B show ?thesis by blast
qed

theorem getFollowingUserPhotosByUserId_missing_owner_witness:
  "(''p3'', newPhoto ''u3'' 5 [] []) \<in> set (photos orphanDb)
   \<and> photo.userId (newPhoto ''u3'' 5 [] []) \<in> set [''u3'']
   \<and> getFollowingUserPhotosByUserId exampleService orphanDb ''u1'' [''u3''] = Inl TypeError"
proof -
  have h1: "(''p3'', newPhoto ''u3'' 5 [] []) \<in> set (photos orphanDb)"
    by (simp add: orphanDb_def)
  have h2: "photo.userId (newPhoto ''u3'' 5 [] []) \<in> set [''u3'']"
    by (simp add: newPhoto_def)
  have h3: "\<forall>doc \<in> set (users orphanDb).
              user.userId (snd doc) \<noteq> photo.userId (newPhoto ''u3'' 5 [] [])"
    by (simp add: orphanDb_def newPhoto_def newUser_def)
  have n: "\<forall>r. \<not> fails exampleService r"
    by (simp add: exampleService_def)
  note t = getFollowingUserPhotosByUserId_missing_owner
         [of "''p3''" "newPhoto ''u3'' 5 [] []" orphanDb "[''u3'']" exampleService "''u1''"]
  from t have "(''p3'', newPhoto ''u3'' 5 [] []) \<in> set (photos orphanDb)
      \<and> photo.userId (newPhoto ''u3'' 5 [] []) \<in> set [''u3'']
      \<and> (\<forall>doc \<in> set (users orphanDb).
            user.userId (snd doc) \<noteq> photo.userId (newPhoto ''u3'' 5 [] []))
     \<longrightarrow> (\<exists>e. getFollowingUserPhotosByUserId exampleService orphanDb ''u1'' [''u3''] = Inl e)
         \<and> ((\<forall>r. \<not> fails exampleService r)
              \<longrightarrow> getFollowingUserPhotosByUserId exampleService orphanDb ''u1'' [''u3'']
                    = Inl TypeError)"
    by (rule conjunct1)
  with h1 h2 h3 have "(\<forall>r. \<not> fails exampleService r)
              \<longrightarrow> getFollowingUserPhotosByUserId exampleService orphanDb ''u1'' [''u3'']
                    = Inl TypeError"
    by simp
  with n have "getFollowingUserPhotosByUserId exampleService orphanDb ''u1'' [''u3'']
                 = Inl TypeError"
    by simp
  with h1 h2 show ?thesis by simp
qed

section \<open>Follow graph mutation\<close>

lemma map_fst_updatedWhere: "map fst (updatedWhere P f ds) = map fst ds"
  by (simp add: updatedWhere_def)

lemma issueUpdate_eq:
  "fst doc \<in> fst ` set (users db) \<Longrightarrow>
   issueUpdate svc f db doc =
     db\<lparr>users := updatedWhere (\<lambda>d. fst d = fst doc \<and> \<not> fails svc (ReqUpdate Users (fst d))) f (users db)\<rparr>"
proof (cases "fails svc (ReqUpdate Users (fst doc))")
  case True
  have "updatedWhere (\<lambda>d. fst d = fst doc \<and> \<not> fails svc (ReqUpdate Users (fst d))) f (users db) = users db"
    unfolding updatedWhere_def using True by (intro map_idI) auto
  then show ?thesis using True by (simp add: issueUpdate_def update_def)
next
  case False
  assume "fst doc \<in> fst ` set (users db)"
  moreover have "(\<lambda>d. fst d = fst doc \<and> \<not> fails svc (ReqUpdate Users (fst d))) = (\<lambda>d. fst d = fst doc)"
    using False by auto
  ultimately show ?thesis using False
    by (simp add: issueUpdate_def update_def updatedWhere_def)
qed

lemma foldl_issueUpdate:
  "distinct (map fst docs) \<Longrightarrow> fst ` set docs \<subseteq> fst ` set (users db) \<Longrightarrow>
   foldl (issueUpdate svc f) db docs =
     db\<lparr>users := updatedWhere
                    (\<lambda>d. fst d \<in> fst ` set docs \<and> \<not> fails svc (ReqUpdate Users (fst d))) f
                    (users db)\<rparr>"
proof (induction docs arbitrary: db)
  case Nil
  have "updatedWhere (\<lambda>d. False) f (users db) = users db"
    by (simp add: updatedWhere_def)
  then show ?case by simp
next
  case (Cons doc docs)
  let ?one = "\<lambda>d. fst d = fst doc \<and> \<not> fails svc (ReqUpdate Users (fst d))"
  let ?rest = "\<lambda>d. fst d \<in> fst ` set docs \<and> \<not> fails svc (ReqUpdate Users (fst d))"
  let ?all = "\<lambda>d. fst d \<in> fst ` set (doc # docs) \<and> \<not> fails svc (ReqUpdate Users (fst d))"
  let ?db1 = "db\<lparr>users := updatedWhere ?one f (users db)\<rparr>"
  from Cons.prems have here: "fst doc \<in> fst ` set (users db)" by simp
  have step: "issueUpdate svc f db doc = ?db1"
    using here by (rule issueUpdate_eq)
  have d: "distinct (map fst docs)" and fresh: "fst doc \<notin> fst ` set docs"
    using Cons.prems(1) by simp_all
  have "fst ` set (users ?db1) = fst ` set (users db)"
    using map_fst_updatedWhere [of ?one f "users db", THEN arg_cong, of set] by simp
  then have sub: "fst ` set docs \<subseteq> fst ` set (users ?db1)"
    using Cons.prems(2) by simp
  have "updatedWhere ?rest f (updatedWhere ?one f (users db)) = updatedWhere ?all f (users db)"
    unfolding updatedWhere_def map_map
    by (rule map_cong [OF refl]) (use fresh in \<open>auto simp: image_iff\<close>)
  then have "foldl (issueUpdate svc f) ?db1 docs = db\<lparr>users := updatedWhere ?all f (users db)\<rparr>"
    using Cons.IH [OF d sub] by simp
  then show ?case using step by simp
qed

lemma updateUserFollowingField_effect:
  assumes "distinct (map fst (users db))"
    and "\<not> fails svc (ReqGet Users [WhereEq ''userId'' uid])"
  shows "updateUserFollowingField svc x uid st db =
    (Inr (),
     db\<lparr>users := updatedWhere
                    (\<lambda>d. user.userId (snd d) = uid \<and> \<not> fails svc (ReqUpdate Users (fst d)))
                    (following_update
                       (applyFieldValue (if st then ArrayRemove x else ArrayUnion x)))
                    (users db)\<rparr>)"
proof -
  define docs where "docs = filter (\<lambda>doc. user.userId (snd doc) = uid) (users db)"
  define f :: "user \<Rightarrow> user" where
    "f = following_update (applyFieldValue (if st then ArrayRemove x else ArrayUnion x))"
  define I where "I = fst ` set docs"
  have d: "distinct (map fst docs)"
    unfolding docs_def using assms(1) by (rule distinct_map_filter)
  have sub: "fst ` set docs \<subseteq> fst ` set (users db)"
    by (auto simp: docs_def)
  have same: "(fst doc \<in> I) = (user.userId (snd doc) = uid)"
    if "doc \<in> set (users db)" for doc
  proof
    assume "fst doc \<in> I"
    then obtain doc' where m: "doc' \<in> set (users db)" and u: "user.userId (snd doc') = uid"
      and k: "fst doc' = fst doc"
      by (auto simp: I_def docs_def)
    from assms(1) m that k have "doc' = doc"
      by (metis eq_key_imp_eq_value prod.collapse)
    with u show "user.userId (snd doc) = uid" by simp
  next
    assume "user.userId (snd doc) = uid"
    with that show "fst doc \<in> I" by (auto simp: I_def docs_def)
  qed
  have "updatedWhere (\<lambda>d. fst d \<in> I \<and> \<not> fails svc (ReqUpdate Users (fst d))) f (users db)
      = updatedWhere (\<lambda>d. user.userId (snd d) = uid \<and> \<not> fails svc (ReqUpdate Users (fst d))) f
          (users db)"
    unfolding updatedWhere_def by (rule map_cong [OF refl]) (simp add: same)
  then have "foldl (issueUpdate svc f) db docs
      = db\<lparr>users := updatedWhere
            (\<lambda>d. user.userId (snd d) = uid \<and> \<not> fails svc (ReqUpdate Users (fst d))) f
            (users db)\<rparr>"
    using foldl_issueUpdate [OF d sub, of svc f] by (simp add: I_def)
  then show ?thesis using assms(2)
    by (simp add: updateUserFollowingField_def get_def runQuery_userId docs_def f_def)
qed


lemma updateUserFollowingField_accepted:
  assumes "distinct (map fst (users db))"
    and "\<not> fails svc (ReqGet Users [WhereEq ''userId'' uid])"
    and "\<forall>doc \<in> set (users db). user.userId (snd doc) = uid \<longrightarrow> \<not> fails svc (ReqUpdate Users (fst doc))"
  shows "updateUserFollowingField svc x uid st db =
    (Inr (),
     db\<lparr>users := updatedWhere (\<lambda>d. user.userId (snd d) = uid)
                    (following_update
                       (applyFieldValue (if st then ArrayRemove x else ArrayUnion x)))
                    (users db)\<rparr>)"
proof -
  define f :: "user \<Rightarrow> user" where
    "f = following_update (applyFieldValue (if st then ArrayRemove x else ArrayUnion x))"
  have "updatedWhere (\<lambda>d. user.userId (snd d) = uid \<and> \<not> fails svc (ReqUpdate Users (fst d))) f (users db)
      = updatedWhere (\<lambda>d. user.userId (snd d) = uid) f (users db)"
    unfolding updatedWhere_def by (rule map_cong [OF refl]) (use assms(3) in auto)
  then show ?thesis
    using updateUserFollowingField_effect [OF assms(1,2), of x st] by (simp add: f_def)
qed

lemma set_arrayUnion: "set (applyFieldValue (ArrayUnion x) xs) = insert x (set xs)"
  by auto

lemma arrayUnion_present: "x \<in> set xs \<Longrightarrow> applyFieldValue (ArrayUnion x) xs = xs"
  by simp

lemma set_arrayRemove: "set (applyFieldValue (ArrayRemove x) xs) = set xs - {x}"
  by auto

lemma arrayRemove_arrayUnion:
  "x \<notin> set xs \<Longrightarrow> applyFieldValue (ArrayRemove x) (applyFieldValue (ArrayUnion x) xs) = xs"
  by (auto simp: filter_id_conv)



text \<open>
  C1, as amended. On a state with unique document identifiers and with the query and the
  updates accepted, the call with flag \<open>False\<close> adds \<open>suggestedUserId\<close> to the
  \<open>following\<close> of every document of the user (and changes nothing where it is present
  already), the call with flag \<open>True\<close> after it leaves \<open>following\<close> without
  \<open>suggestedUserId\<close>, and the two calls give back the original \<open>following\<close>, and the
  original state, where \<open>suggestedUserId\<close> was not in it before.
\<close>

theorem updateUserFollowingField_round_trip:
  assumes "wellFormed db"
    and "\<not> fails svc (ReqGet Users [WhereEq ''userId'' uid])"
    and "\<forall>doc \<in> set (users db). user.userId (snd doc) = uid \<longrightarrow> \<not> fails svc (ReqUpdate Users (fst doc))"
    and "updateUserFollowingField svc x uid False db = (r1, db1)"
    and "updateUserFollowingField svc x uid True db1 = (r2, db2)"
  shows "r1 = Inr () \<and> r2 = Inr ()
       \<and> (\<forall>k < length (users db). user.userId (snd (users db ! k)) = uid \<longrightarrow>
            set (following (snd (users db1 ! k))) = insert x (set (following (snd (users db ! k))))
          \<and> (x \<in> set (following (snd (users db ! k)))
               \<longrightarrow> following (snd (users db1 ! k)) = following (snd (users db ! k)))
          \<and> set (following (snd (users db2 ! k))) = set (following (snd (users db ! k))) - {x}
          \<and> (x \<notin> set (following (snd (users db ! k)))
               \<longrightarrow> following (snd (users db2 ! k)) = following (snd (users db ! k))))
       \<and> ((\<forall>doc \<in> set (users db). user.userId (snd doc) = uid \<longrightarrow> x \<notin> set (following (snd doc)))
           \<longrightarrow> db2 = db)"
proof -
  define P where "P = (\<lambda>d :: string \<times> user. user.userId (snd d) = uid)"
  define fU :: "user \<Rightarrow> user" where "fU = following_update (applyFieldValue (ArrayUnion x))"
  define fR :: "user \<Rightarrow> user" where "fR = following_update (applyFieldValue (ArrayRemove x))"
  define gU where "gU = (\<lambda>doc :: string \<times> user. if P doc then (fst doc, fU (snd doc)) else doc)"
  define gR where "gR = (\<lambda>doc :: string \<times> user. if P doc then (fst doc, fR (snd doc)) else doc)"
  from assms(1) have d: "distinct (map fst (users db))"
    by (simp add: wellFormed_def)
  from updateUserFollowingField_accepted [OF d assms(2,3), of x False] assms(4)
  have r1: "r1 = Inr ()" and db1: "db1 = db\<lparr>users := map gU (users db)\<rparr>"
    by (simp_all add: updatedWhere_def gU_def P_def fU_def)
  have u1: "users db1 = map gU (users db)" by (simp add: db1)
  have fst_gU: "fst (gU doc) = fst doc" and P_gU: "P (gU doc) = P doc" for doc
    by (simp_all add: gU_def P_def fU_def)
  have "map fst (users db1) = map fst (users db)"
    by (simp add: u1 fst_gU o_def)
  then have d1: "distinct (map fst (users db1))"
    using d by simp
  have ok1: "\<forall>doc \<in> set (users db1). user.userId (snd doc) = uid \<longrightarrow> \<not> fails svc (ReqUpdate Users (fst doc))"
  proof
    fix doc assume "doc \<in> set (users db1)"
    then obtain doc0 where m: "doc0 \<in> set (users db)" and e: "doc = gU doc0"
      by (auto simp: u1)
    from assms(3) m have "P doc0 \<longrightarrow> \<not> fails svc (ReqUpdate Users (fst doc0))"
      by (simp add: P_def)
    then have "P doc \<longrightarrow> \<not> fails svc (ReqUpdate Users (fst doc))"
      by (simp add: e fst_gU P_gU)
    then show "user.userId (snd doc) = uid \<longrightarrow> \<not> fails svc (ReqUpdate Users (fst doc))"
      by (simp add: P_def)
  qed
  from updateUserFollowingField_accepted [OF d1 assms(2) ok1, of x True] assms(5)
  have r2: "r2 = Inr ()" and db2: "db2 = db1\<lparr>users := map gR (users db1)\<rparr>"
    by (simp_all add: updatedWhere_def gR_def P_def fR_def)
  have u2: "users db2 = map gR (map gU (users db))" by (simp add: db2 u1)
  have each: "set (following (snd (users db1 ! k))) = insert x (set (following (snd (users db ! k))))
          \<and> (x \<in> set (following (snd (users db ! k)))
               \<longrightarrow> following (snd (users db1 ! k)) = following (snd (users db ! k)))
          \<and> set (following (snd (users db2 ! k))) = set (following (snd (users db ! k))) - {x}
          \<and> (x \<notin> set (following (snd (users db ! k)))
               \<longrightarrow> following (snd (users db2 ! k)) = following (snd (users db ! k)))"
    if k: "k < length (users db)" and m: "user.userId (snd (users db ! k)) = uid" for k
  proof -
    have p: "P (users db ! k)" using m by (simp add: P_def)
    have a: "users db1 ! k = (fst (users db ! k), fU (snd (users db ! k)))"
      using k p by (simp add: u1 gU_def)
    have b: "users db2 ! k = (fst (users db ! k), fR (fU (snd (users db ! k))))"
      using k p by (simp add: u2 gU_def gR_def P_def fU_def)
    show ?thesis
      by (simp add: a b fU_def fR_def set_arrayUnion arrayUnion_present set_arrayRemove
          arrayRemove_arrayUnion del: applyFieldValue.simps)
  qed
  have restored: "db2 = db"
    if nx: "\<forall>doc \<in> set (users db). user.userId (snd doc) = uid \<longrightarrow> x \<notin> set (following (snd doc))"
  proof -
    have "gR (gU doc) = doc" if "doc \<in> set (users db)" for doc
    proof (cases "P doc")
      case True
      with that nx have "x \<notin> set (following (snd doc))"
        by (simp add: P_def)
      then have "fR (fU (snd doc)) = snd doc"
        by (simp add: fR_def fU_def arrayRemove_arrayUnion del: applyFieldValue.simps)
      with True show ?thesis by (simp add: gR_def gU_def P_def fU_def)
    next
      case False
      then show ?thesis by (simp add: gR_def gU_def)
    qed
    then have "map gR (map gU (users db)) = users db"
      unfolding map_map by (intro map_idI) simp
    then show ?thesis by (simp add: db2 db1)
  qed
  from r1 r2 each restored show ?thesis by blast
qed

theorem updateUserFollowingField_round_trip_witness:
  "wellFormed exampleDb
   \<and> \<not> fails exampleService (ReqGet Users [WhereEq ''userId'' ''u1''])
   \<and> snd (updateUserFollowingField exampleService ''u3'' ''u1'' True
            (snd (updateUserFollowingField exampleService ''u3'' ''u1'' False exampleDb)))
       = exampleDb"
proof -
  have w: "wellFormed exampleDb"
    by code_simp
  have q: "\<not> fails exampleService (ReqGet Users [WhereEq ''userId'' ''u1''])"
    by (simp add: exampleService_def)
  have u: "\<forall>doc \<in> set (users exampleDb). user.userId (snd doc) = ''u1''
             \<longrightarrow> \<not> fails exampleService (ReqUpdate Users (fst doc))"
    by (simp add: exampleService_def)
  have n: "\<forall>doc \<in> set (users exampleDb). user.userId (snd doc) = ''u1''
             \<longrightarrow> ''u3'' \<notin> set (following (snd doc))"
    by (simp add: exampleDb_def newUser_def)
  define db1 where
    "db1 = snd (updateUserFollowingField exampleService ''u3'' ''u1'' False exampleDb)"
  have c1: "updateUserFollowingField exampleService ''u3'' ''u1'' False exampleDb
     = (fst (updateUserFollowingField exampleService ''u3'' ''u1'' False exampleDb), db1)"
    by (simp add: db1_def)
  have c2: "updateUserFollowingField exampleService ''u3'' ''u1'' True db1
     = (fst (updateUserFollowingField exampleService ''u3'' ''u1'' True db1),
        snd (updateUserFollowingField exampleService ''u3'' ''u1'' True db1))"
    by simp
  from updateUserFollowingField_round_trip [OF w q u c1 c2] n
  have "snd (updateUserFollowingField exampleService ''u3'' ''u1'' True db1) = exampleDb"
    by blast
  with w q show ?thesis by (simp add: db1_def)
qed

text \<open>
  C1 as stated fails: \<^verbatim>\<open>u2\<close> of the example state follows \<^verbatim>\<open>u1\<close> already. The call
  with flag \<open>False\<close> adds nothing, the call with flag \<open>True\<close> removes \<^verbatim>\<open>u1\<close>, and the
  \<open>following\<close> of \<^verbatim>\<open>u2\<close> ends empty.
\<close>

theorem updateUserFollowingField_round_trip_fails:
  "map (following \<circ> snd) (users exampleDb) = [[], [''u1''], []]
   \<and> fst (updateUserFollowingField exampleService ''u1'' ''u2'' False exampleDb) = Inr ()
   \<and> map (following \<circ> snd)
         (users (snd (updateUserFollowingField exampleService ''u1'' ''u2'' False exampleDb)))
       = [[], [''u1''], []]
   \<and> fst (updateUserFollowingField exampleService ''u1'' ''u2'' True
            (snd (updateUserFollowingField exampleService ''u1'' ''u2'' False exampleDb)))
       = Inr ()
   \<and> map (following \<circ> snd)
         (users (snd (updateUserFollowingField exampleService ''u1'' ''u2'' True
                       (snd (updateUserFollowingField exampleService ''u1'' ''u2'' False
                              exampleDb)))))
       = [[], [], []]"
  by code_simp

text \<open>
  C2. The service fails the update of the one document of \<^verbatim>\<open>u1\<close>, and
  \<open>updateUserFollowingField\<close> resolves all the same, with the state unchanged: the
  failure reaches no caller. \<open>updateUserFollowersField\<close>, which returns the promise of
  its update, rejects on the same failure.
\<close>

theorem updateUserFollowingField_drops_failure:
  "fails failingService (ReqUpdate Users ''d1'')
   \<and> updateUserFollowingField failingService ''u3'' ''u1'' False exampleDb
       = (Inr (), exampleDb)
   \<and> updateUserFollowersField failingService ''d1'' ''u3'' False exampleDb
       = (Inl RemoteServiceFailure, exampleDb)"
  by code_simp

end
